theory Spec2Isabelle
  imports Complex_Main "HOL-Library.Word" "HOL-Library.Signed_Division" "HOL-Library.Log_Nat"
begin

unbundle bit_operations_syntax

section \<open>Data model of merkle/merkle.go\<close>

text \<open>
  A Go byte slice is modelled by its contents, a list of bytes, and \<^verbatim>\<open>append(a, b...)\<close> by
  list concatenation. This is what the code computes whenever no slice passed to
  \<^verbatim>\<open>append\<close> has spare capacity that another slice in use shares; the \<^verbatim>\<open>sha256Hash\<close> of
  main.go returns slices whose capacity is their length. The hash function is the parameter
  \<^verbatim>\<open>hashFn\<close> of the tree, a function from byte sequences to byte sequences (it never returns
  Go's \<^verbatim>\<open>nil\<close> slice in place of a digest). Go's \<^verbatim>\<open>int\<close> is modelled by \<^typ>\<open>int\<close>:
  the only arithmetic on an index is \<^verbatim>\<open>% 2\<close>, \<^verbatim>\<open>/ 2\<close> and \<^verbatim>\<open>^ 1\<close>, none of which can
  overflow. Go's \<^verbatim>\<open>/\<close> and \<^verbatim>\<open>%\<close> truncate toward zero; they are \<open>sdiv\<close> and \<open>smod\<close>.
\<close>

type_synonym bytes = "8 word list"

type_synonym HashFn = "bytes \<Rightarrow> bytes"

datatype MerkleNode =
  MerkleNode (Left: "MerkleNode option") (Right: "MerkleNode option") (Hash: bytes)

record DefaultMerkleTree =
  hashFn :: HashFn
  leaves :: "bytes list"
  root :: "MerkleNode option"

text \<open>
  \<open>IndexOutOfBounds\<close> is the error value returned by \<^verbatim>\<open>GenerateProof\<close>
  (\<^verbatim>\<open>errors.New("index out of bounds")\<close>); \<open>RuntimePanic\<close> is Go's run-time panic on a
  slice index out of range.
\<close>

datatype error = IndexOutOfBounds | RuntimePanic

definition NewDefaultMerkleTree :: "HashFn \<Rightarrow> DefaultMerkleTree" where
  "NewDefaultMerkleTree h = \<lparr>hashFn = h, leaves = [], root = None\<rparr>"

section \<open>buildTree\<close>

text \<open>The first loop of \<^verbatim>\<open>buildTree\<close>: one childless node per leaf, holding the leaf's hash.\<close>

definition leafNodes :: "HashFn \<Rightarrow> bytes list \<Rightarrow> MerkleNode list" where
  "leafNodes h ls = map (\<lambda>data. MerkleNode None None (h data)) ls"

text \<open>
  \<^verbatim>\<open>if len(nodes)%2 != 0 { nodes = append(nodes, nodes[len(nodes)-1]) }\<close>.
  An odd length is at least one, so the index is in range.
\<close>

definition dupLast :: "'a list \<Rightarrow> 'a list" where
  "dupLast nodes =
     (if length nodes mod 2 \<noteq> 0 then nodes @ [nodes ! (length nodes - 1)] else nodes)"

text \<open>
  The inner loop \<^verbatim>\<open>for i := 0; i < len(nodes); i += 2\<close> of \<^verbatim>\<open>buildTree\<close>. On a list of
  odd length the read of \<^verbatim>\<open>nodes[i+1]\<close> panics in the last round.
\<close>

fun buildLevel :: "HashFn \<Rightarrow> MerkleNode list \<Rightarrow> error + MerkleNode list" where
  "buildLevel h [] = Inr []"
| "buildLevel h [l] = Inl RuntimePanic"
| "buildLevel h (l # r # rest) =
     (case buildLevel h rest of
        Inl e \<Rightarrow> Inl e
      | Inr level \<Rightarrow> Inr (MerkleNode (Some l) (Some r) (h (Hash l @ Hash r)) # level))"

lemma buildLevel_length:
  "buildLevel h nodes = Inr level \<Longrightarrow> length level = length nodes div 2"
  by (induction h nodes arbitrary: level rule: buildLevel.induct)
     (auto split: sum.splits)

lemma length_dupLast: "length (dupLast nodes) = length nodes + length nodes mod 2"
  by (simp add: dupLast_def)

text \<open>The outer loop \<^verbatim>\<open>for len(nodes) > 1\<close> of \<^verbatim>\<open>buildTree\<close>.\<close>

function buildLoop :: "HashFn \<Rightarrow> MerkleNode list \<Rightarrow> error + MerkleNode list" where
  "buildLoop h nodes =
     (if length nodes > 1 then
        (case buildLevel h (dupLast nodes) of
           Inl e \<Rightarrow> Inl e
         | Inr level \<Rightarrow> buildLoop h level)
      else Inr nodes)"
  by pat_completeness auto
termination
proof (relation "measure (\<lambda>(h, nodes). length nodes)")
  show "wf (measure (\<lambda>(h, nodes). length nodes))" by simp
next
  fix h :: HashFn and nodes level :: "MerkleNode list"
  assume "1 < length nodes" and "buildLevel h (dupLast nodes) = Inr level"
  then have "length level = (length nodes + length nodes mod 2) div 2" and "1 < length nodes"
    by (simp_all add: buildLevel_length length_dupLast)
  then have "length level < length nodes" by presburger
  then show "((h, level), (h, nodes)) \<in> measure (\<lambda>(h, nodes). length nodes)" by simp
qed

declare buildLoop.simps [simp del]

definition buildTree :: "DefaultMerkleTree \<Rightarrow> error + DefaultMerkleTree" where
  "buildTree t =
     (let nodes = leafNodes (hashFn t) (leaves t) in
      if length nodes = 0 then Inr (t\<lparr>root := None\<rparr>)
      else
        (case buildLoop (hashFn t) nodes of
           Inl e \<Rightarrow> Inl e
         | Inr nodes' \<Rightarrow>
             (case nodes' of
                [] \<Rightarrow> Inl RuntimePanic
              | n # _ \<Rightarrow> Inr (t\<lparr>root := Some n\<rparr>))))"

section \<open>The operations of the tree\<close>

text \<open>
  Every operation takes the tree and returns the tree it leaves behind, next to its result.
  \<^verbatim>\<open>AddLeaf\<close> always returns the \<^verbatim>\<open>nil\<close> error, so its result is the new tree (or the
  panic of \<^verbatim>\<open>buildTree\<close>).
\<close>

definition AddLeaf :: "DefaultMerkleTree \<Rightarrow> bytes \<Rightarrow> error + DefaultMerkleTree" where
  "AddLeaf t data = buildTree (t\<lparr>leaves := leaves t @ [data]\<rparr>)"

text \<open>
  \<^verbatim>\<open>Root\<close> returns \<^verbatim>\<open>nil\<close> when the stored root pointer is \<^verbatim>\<open>nil\<close>, and the hash of the
  root node otherwise. The \<^verbatim>\<open>nil\<close> result is \<open>None\<close>, a hash \<open>h\<close> is \<open>Some h\<close>.
\<close>

definition Root :: "DefaultMerkleTree \<Rightarrow> bytes option \<times> DefaultMerkleTree" where
  "Root t = (case root t of None \<Rightarrow> (None, t) | Some n \<Rightarrow> (Some (Hash n), t))"

text \<open>
  The inner loop of \<^verbatim>\<open>GenerateProof\<close>: as in \<^verbatim>\<open>buildTree\<close>, but the parents have no
  children.
\<close>

fun hashLevel :: "HashFn \<Rightarrow> MerkleNode list \<Rightarrow> error + MerkleNode list" where
  "hashLevel h [] = Inr []"
| "hashLevel h [l] = Inl RuntimePanic"
| "hashLevel h (l # r # rest) =
     (case hashLevel h rest of
        Inl e \<Rightarrow> Inl e
      | Inr nextLevel \<Rightarrow> Inr (MerkleNode None None (h (Hash l @ Hash r)) # nextLevel))"

lemma hashLevel_length:
  "hashLevel h level = Inr nextLevel \<Longrightarrow> length nextLevel = length level div 2"
  by (induction h level arbitrary: nextLevel rule: hashLevel.induct)
     (auto split: sum.splits)

text \<open>
  The loop \<^verbatim>\<open>for numLeaves > 1\<close> of \<^verbatim>\<open>GenerateProof\<close>, with its four variables. The read
  \<^verbatim>\<open>level[siblingIndex]\<close> panics out of range.
\<close>

function proofLoop ::
  "HashFn \<Rightarrow> nat \<Rightarrow> MerkleNode list \<Rightarrow> int \<Rightarrow> bytes list \<Rightarrow> error + bytes list" where
  "proofLoop h numLeaves level index proof =
     (if numLeaves > 1 then
        (let level' = dupLast level;
             siblingIndex = index XOR 1
         in if siblingIndex < 0 \<or> int (length level') \<le> siblingIndex then Inl RuntimePanic
            else
              (case hashLevel h level' of
                 Inl e \<Rightarrow> Inl e
               | Inr nextLevel \<Rightarrow>
                   proofLoop h (length nextLevel) nextLevel (index sdiv 2)
                     (proof @ [Hash (level' ! nat siblingIndex)])))
      else Inr proof)"
  by pat_completeness auto
termination
proof (relation "measure (\<lambda>(h, numLeaves, level, index, proof).
         2 * length level + (if numLeaves = length level then 0 else 1))")
  show "wf (measure (\<lambda>(h, numLeaves, level, index, proof).
         2 * length level + (if numLeaves = length level then 0 else 1)))" by simp
next
  fix h :: HashFn and numLeaves :: nat and level level' nextLevel :: "MerkleNode list"
    and index siblingIndex :: int and "proof" :: "bytes list"
  assume n: "1 < numLeaves" and l: "level' = dupLast level"
    and s: "\<not> (siblingIndex < 0 \<or> int (length level') \<le> siblingIndex)"
    and h: "hashLevel h level' = Inr nextLevel"
  from l have len': "length level' = length level + length level mod 2"
    by (simp add: length_dupLast)
  from h have len: "length nextLevel = length level' div 2"
    by (rule hashLevel_length)
  from s have "0 < length level'" by linarith
  with len' have pos: "0 < length level" by (cases "length level") auto
  have "2 * length nextLevel < 2 * length level + (if numLeaves = length level then 0 else 1)"
    using n pos len len' by (auto split: if_splits)
  then show "((h, length nextLevel, nextLevel, index sdiv 2,
                proof @ [Hash (level' ! nat siblingIndex)]),
              (h, numLeaves, level, index, proof))
             \<in> measure (\<lambda>(h, numLeaves, level, index, proof).
                  2 * length level + (if numLeaves = length level then 0 else 1))"
    by simp
qed

declare proofLoop.simps [simp del]

definition GenerateProof ::
  "DefaultMerkleTree \<Rightarrow> int \<Rightarrow> (error + bytes list) \<times> DefaultMerkleTree" where
  "GenerateProof t index =
     (if index < 0 \<or> int (length (leaves t)) \<le> index then (Inl IndexOutOfBounds, t)
      else (proofLoop (hashFn t) (length (leaves t)) (leafNodes (hashFn t) (leaves t)) index [], t))"

text \<open>The loop \<^verbatim>\<open>for _, sibling := range proof\<close> of \<^verbatim>\<open>VerifyProof\<close>.\<close>

fun verifyLoop :: "HashFn \<Rightarrow> bytes \<Rightarrow> int \<Rightarrow> bytes list \<Rightarrow> bytes" where
  "verifyLoop h hash index [] = hash"
| "verifyLoop h hash index (sibling # rest) =
     (let combined = (if index smod 2 = 0 then hash @ sibling else sibling @ hash)
      in verifyLoop h (h combined) (index sdiv 2) rest)"

definition VerifyProof ::
  "DefaultMerkleTree \<Rightarrow> bytes \<Rightarrow> int \<Rightarrow> bytes list \<Rightarrow> bytes \<Rightarrow> bool \<times> DefaultMerkleTree" where
  "VerifyProof t leaf index proof root' =
     (verifyLoop (hashFn t) (hashFn t leaf) index proof = root', t)"

section \<open>The levels of the tree as lists of hashes\<close>

text \<open>
  The hashes that \<^verbatim>\<open>buildTree\<close> and \<^verbatim>\<open>GenerateProof\<close> compute, level by level, without the
  nodes: \<open>nextHashes\<close> is one round of either loop, \<open>rootHashes\<close> runs the rounds down to
  one hash, \<open>proofHashes\<close> collects the sibling of the path at every round.
\<close>


fun pairHashes :: "HashFn \<Rightarrow> bytes list \<Rightarrow> bytes list" where
  "pairHashes h (a # b # rest) = h (a @ b) # pairHashes h rest"
| "pairHashes h _ = []"

definition nextHashes :: "HashFn \<Rightarrow> bytes list \<Rightarrow> bytes list" where
  "nextHashes h hs = pairHashes h (dupLast hs)"

lemma length_pairHashes: "length (pairHashes h hs) = length hs div 2"
  by (induction h hs rule: pairHashes.induct) simp_all

lemma length_nextHashes: "length (nextHashes h hs) = (length hs + 1) div 2"
  unfolding nextHashes_def length_pairHashes length_dupLast by presburger

lemma even_length_dupLast: "even (length (dupLast xs))"
  by (simp add: length_dupLast)

lemma map_dupLast: "map f (dupLast xs) = dupLast (map f xs)"
  by (cases "xs = []") (auto simp: dupLast_def)

lemma buildLevel_even:
  "even (length nodes) \<Longrightarrow>
     \<exists>level. buildLevel h nodes = Inr level \<and> map Hash level = pairHashes h (map Hash nodes)"
  by (induction h nodes rule: buildLevel.induct) auto

lemma hashLevel_even:
  "even (length level) \<Longrightarrow>
     \<exists>nextLevel. hashLevel h level = Inr nextLevel
        \<and> map Hash nextLevel = pairHashes h (map Hash level)"
  by (induction h level rule: hashLevel.induct) auto

function rootHashes :: "HashFn \<Rightarrow> bytes list \<Rightarrow> bytes list" where
  "rootHashes h hs = (if length hs > 1 then rootHashes h (nextHashes h hs) else hs)"
  by pat_completeness auto
termination
  by (relation "measure (\<lambda>(h, hs). length hs)") (auto simp: length_nextHashes)

declare rootHashes.simps [simp del]

lemma length_rootHashes: "length (rootHashes h hs) = min 1 (length hs)"
proof (induction h hs rule: rootHashes.induct)
  case (1 h hs)
  show ?case
  proof (cases "length hs > 1")
    case True
    with 1 show ?thesis
      by (subst rootHashes.simps) (simp add: length_nextHashes)
  next
    case False
    then show ?thesis by (subst rootHashes.simps) simp
  qed
qed

lemma buildLoop_rootHashes:
  "\<exists>ns. buildLoop h nodes = Inr ns \<and> map Hash ns = rootHashes h (map Hash nodes)"
proof (induction h nodes rule: buildLoop.induct)
  case (1 h nodes)
  show ?case
  proof (cases "length nodes > 1")
    case True
    obtain level where lv: "buildLevel h (dupLast nodes) = Inr level"
      and hl: "map Hash level = pairHashes h (map Hash (dupLast nodes))"
      using buildLevel_even [OF even_length_dupLast] by blast
    from 1 [OF True lv] obtain ns where ns:
      "buildLoop h level = Inr ns" "map Hash ns = rootHashes h (map Hash level)" by blast
    have a: "buildLoop h nodes = buildLoop h level"
      using True lv by (subst buildLoop.simps) simp
    have b: "rootHashes h (map Hash nodes) = rootHashes h (map Hash level)"
      using True hl by (subst rootHashes.simps) (simp add: nextHashes_def map_dupLast)
    from ns a b show ?thesis by simp
  next
    case False
    then have "buildLoop h nodes = Inr nodes" "rootHashes h (map Hash nodes) = map Hash nodes"
      by (subst buildLoop.simps, simp, subst rootHashes.simps, simp)
    then show ?thesis by simp
  qed
qed


function proofHashes :: "HashFn \<Rightarrow> bytes list \<Rightarrow> nat \<Rightarrow> bytes list" where
  "proofHashes h hs i =
     (if length hs > 1 then
        dupLast hs ! (if even i then i + 1 else i - 1) # proofHashes h (nextHashes h hs) (i div 2)
      else [])"
  by pat_completeness auto
termination
  by (relation "measure (\<lambda>(h, hs, i). length hs)") (auto simp: length_nextHashes)

declare proofHashes.simps [simp del]

lemma xor_one_int: "int i XOR 1 = int (if even i then i + 1 else i - 1)"
  by (cases "even i") (auto simp: xor_one_eq elim: oddE)

lemma sdiv_two_int: "int i sdiv 2 = int (i div 2)"
  by (cases "i = 0") (simp_all add: signed_divide_int_def zdiv_int)


lemma sibling_in_range:
  "i < length xs \<Longrightarrow> (if even i then i + 1 else i - 1) < length (dupLast xs)"
  unfolding length_dupLast by presburger

lemma proofLoop_proofHashes:
  "i < length level \<Longrightarrow>
     proofLoop h (length level) level (int i) acc = Inr (acc @ proofHashes h (map Hash level) i)"
proof (induction "length level" arbitrary: level i acc rule: less_induct)
  case less
  show ?case
  proof (cases "length level > 1")
    case False
    then show ?thesis
      by (subst proofLoop.simps, subst proofHashes.simps) simp
  next
    case True
    let ?j = "if even i then i + 1 else i - 1"
    obtain nextLevel where nl: "hashLevel h (dupLast level) = Inr nextLevel"
      and hl: "map Hash nextLevel = pairHashes h (map Hash (dupLast level))"
      using hashLevel_even [OF even_length_dupLast] by blast
    have len: "length nextLevel = (length level + 1) div 2"
      using hashLevel_length [OF nl] unfolding length_dupLast by presburger
    have j: "?j < length (dupLast level)"
      using less.prems by (rule sibling_in_range)
    have smaller: "length nextLevel < length level" "i div 2 < length nextLevel"
      using True less.prems len by presburger+
    have ih: "proofLoop h (length nextLevel) nextLevel (int (i div 2)) acc' =
                Inr (acc' @ proofHashes h (map Hash nextLevel) (i div 2))" for acc'
      using less.hyps [OF smaller(1) smaller(2)] .
    have step: "proofLoop h (length level) level (int i) acc =
        proofLoop h (length nextLevel) nextLevel (int (i div 2))
          (acc @ [Hash (dupLast level ! ?j)])"
      using True j nl
      by (subst proofLoop.simps) (simp add: xor_one_int sdiv_two_int Let_def del: of_nat_add)
    have unf: "proofHashes h (map Hash level) i =
        map Hash (dupLast level) ! ?j # proofHashes h (map Hash nextLevel) (i div 2)"
      using True hl
      by (subst proofHashes.simps) (simp add: nextHashes_def map_dupLast)
    show ?thesis
      using j by (simp add: step ih unf del: of_nat_add)
  qed
qed





lemma length_proofHashes: "length (proofHashes h hs i) = ceillog2 (length hs)"
proof (induction h hs i rule: proofHashes.induct)
  case (1 h hs i)
  show ?case
  proof (cases "length hs > 1")
    case False
    then show ?thesis by (subst proofHashes.simps) simp
  next
    case True
    with 1 show ?thesis
      by (subst proofHashes.simps, subst ceillog2_rec) (simp add: length_nextHashes)
  qed
qed

section \<open>Callers: sequences of operations\<close>


text \<open>
  A caller's calls on one tree, in order. A call of \<^verbatim>\<open>GenerateProof\<close> that returns the
  error \<open>IndexOutOfBounds\<close> returns to the caller, who goes on; a panic ends the run.
\<close>

datatype operation =
  OpAddLeaf bytes
| OpRoot
| OpGenerateProof int
| OpVerifyProof bytes int "bytes list" bytes

fun step :: "DefaultMerkleTree \<Rightarrow> operation \<Rightarrow> error + DefaultMerkleTree" where
  "step t (OpAddLeaf data) = AddLeaf t data"
| "step t OpRoot = Inr (snd (Root t))"
| "step t (OpGenerateProof index) =
     (case GenerateProof t index of
        (Inl RuntimePanic, t') \<Rightarrow> Inl RuntimePanic
      | (_, t') \<Rightarrow> Inr t')"
| "step t (OpVerifyProof leaf index proof root') =
     Inr (snd (VerifyProof t leaf index proof root'))"

fun run :: "DefaultMerkleTree \<Rightarrow> operation list \<Rightarrow> error + DefaultMerkleTree" where
  "run t [] = Inr t"
| "run t (op # ops) = (case step t op of Inl e \<Rightarrow> Inl e | Inr t' \<Rightarrow> run t' ops)"

text \<open>The leaves a sequence of calls adds, in order.\<close>

fun addedLeaves :: "operation list \<Rightarrow> bytes list" where
  "addedLeaves [] = []"
| "addedLeaves (OpAddLeaf data # ops) = data # addedLeaves ops"
| "addedLeaves (_ # ops) = addedLeaves ops"

section \<open>The root as a function of the leaves\<close>

text \<open>
  \<open>merkleRoot\<close> is the root hash in terms of the hash function and the list of leaves alone;
  \<open>builtRoot\<close> is the node that \<^verbatim>\<open>buildTree\<close> stores for them.
\<close>

definition merkleRoot :: "HashFn \<Rightarrow> bytes list \<Rightarrow> bytes option" where
  "merkleRoot h ls = (case rootHashes h (map h ls) of [] \<Rightarrow> None | r # _ \<Rightarrow> Some r)"

definition builtRoot :: "HashFn \<Rightarrow> bytes list \<Rightarrow> MerkleNode option" where
  "builtRoot h ls =
     (case buildLoop h (leafNodes h ls) of Inr (n # _) \<Rightarrow> Some n | _ \<Rightarrow> None)"

section \<open>The verification algorithm in the words of the specification\<close>





section \<open>Lemmas on the operations\<close>

lemma map_Hash_leafNodes: "map Hash (leafNodes h ls) = map h ls"
  by (simp add: leafNodes_def comp_def)

lemma length_leafNodes: "length (leafNodes h ls) = length ls"
  by (simp add: leafNodes_def)

lemma merkleRoot_eq_None: "merkleRoot h ls = None \<longleftrightarrow> ls = []"
proof -
  have "length (rootHashes h (map h ls)) = min 1 (length ls)"
    by (simp add: length_rootHashes)
  then show ?thesis
    by (cases "rootHashes h (map h ls)"; cases ls) (simp_all add: merkleRoot_def)
qed


lemma Hash_builtRoot: "map_option Hash (builtRoot h ls) = merkleRoot h ls"
proof -
  obtain ns where ns: "buildLoop h (leafNodes h ls) = Inr ns"
    and hs: "map Hash ns = rootHashes h (map h ls)"
    using buildLoop_rootHashes [of h "leafNodes h ls"] by (auto simp: map_Hash_leafNodes)
  show ?thesis
    by (cases ns) (auto simp: builtRoot_def merkleRoot_def ns hs [symmetric])
qed

lemma builtRoot_eq_None: "builtRoot h ls = None \<longleftrightarrow> ls = []"
  using Hash_builtRoot [of h ls] merkleRoot_eq_None [of h ls] by (cases "builtRoot h ls") auto

lemma builtRoot_Nil: "builtRoot h [] = None"
  by (simp add: builtRoot_eq_None)

lemma buildTree_eq: "buildTree t = Inr (t\<lparr>root := builtRoot (hashFn t) (leaves t)\<rparr>)"
proof (cases "leaves t = []")
  case True
  then show ?thesis
    by (simp add: buildTree_def builtRoot_Nil leafNodes_def)
next
  case False
  obtain ns where ns: "buildLoop (hashFn t) (leafNodes (hashFn t) (leaves t)) = Inr ns"
    and hs: "map Hash ns = rootHashes (hashFn t) (map (hashFn t) (leaves t))"
    using buildLoop_rootHashes [of "hashFn t" "leafNodes (hashFn t) (leaves t)"]
    by (auto simp: map_Hash_leafNodes)
  have "length ns = 1"
    using False arg_cong [OF hs, of length] by (cases "leaves t") (simp_all add: length_rootHashes)
  then obtain n where "ns = [n]" by (cases ns) auto
  moreover have "leafNodes (hashFn t) (leaves t) \<noteq> []"
    using False by (simp add: leafNodes_def)
  ultimately show ?thesis
    using ns by (simp add: buildTree_def builtRoot_def Let_def)
qed

lemma AddLeaf_eq:
  "AddLeaf t data =
     Inr (t\<lparr>leaves := leaves t @ [data], root := builtRoot (hashFn t) (leaves t @ [data])\<rparr>)"
  by (simp add: AddLeaf_def buildTree_eq)

lemma GenerateProof_eq:
  "GenerateProof t index =
     (if index < 0 \<or> int (length (leaves t)) \<le> index then (Inl IndexOutOfBounds, t)
      else (Inr (proofHashes (hashFn t) (map (hashFn t) (leaves t)) (nat index)), t))"
proof (cases "index < 0 \<or> int (length (leaves t)) \<le> index")
  case True
  then show ?thesis by (simp add: GenerateProof_def)
next
  case False
  then have "nat index < length (leafNodes (hashFn t) (leaves t))"
    unfolding length_leafNodes by linarith
  from proofLoop_proofHashes [OF this, of "hashFn t" "[]"] False show ?thesis
    by (simp add: GenerateProof_def length_leafNodes map_Hash_leafNodes)
qed

text \<open>The stored root is the one \<^verbatim>\<open>buildTree\<close> computes from the stored leaves.\<close>

definition consistent :: "DefaultMerkleTree \<Rightarrow> bool" where
  "consistent t \<longleftrightarrow> root t = builtRoot (hashFn t) (leaves t)"

lemma step_consistent:
  "consistent t \<Longrightarrow>
     \<exists>t'. step t op = Inr t' \<and> consistent t' \<and> hashFn t' = hashFn t
        \<and> leaves t' = leaves t @ addedLeaves [op]"
  by (cases op) (auto simp: AddLeaf_eq Root_def GenerateProof_eq VerifyProof_def consistent_def
      split: option.splits)

lemma addedLeaves_Cons: "addedLeaves (op # ops) = addedLeaves [op] @ addedLeaves ops"
  by (cases op) simp_all

lemma run_consistent:
  "consistent t \<Longrightarrow>
     \<exists>t'. run t ops = Inr t' \<and> consistent t' \<and> hashFn t' = hashFn t
        \<and> leaves t' = leaves t @ addedLeaves ops"
proof (induction ops arbitrary: t)
  case Nil
  then show ?case by simp
next
  case (Cons op ops)
  from step_consistent [OF Cons.prems, of op] obtain t1 where
    t1: "step t op = Inr t1" "consistent t1" "hashFn t1 = hashFn t"
      "leaves t1 = leaves t @ addedLeaves [op]" by blast
  from Cons.IH [OF t1(2)] obtain t' where
    "run t1 ops = Inr t'" "consistent t'" "hashFn t' = hashFn t1"
      "leaves t' = leaves t1 @ addedLeaves ops" by blast
  with t1 show ?case
    by (simp add: addedLeaves_Cons [of op ops])
qed

lemma consistent_New: "consistent (NewDefaultMerkleTree h)"
  by (simp add: consistent_def NewDefaultMerkleTree_def builtRoot_Nil)

lemma run_New:
  "\<exists>t. run (NewDefaultMerkleTree h) ops = Inr t \<and> consistent t \<and> hashFn t = h
      \<and> leaves t = addedLeaves ops"
  using run_consistent [OF consistent_New, of h ops] by (simp add: NewDefaultMerkleTree_def)

lemma Root_consistent: "consistent t \<Longrightarrow> fst (Root t) = merkleRoot (hashFn t) (leaves t)"
  using Hash_builtRoot [of "hashFn t" "leaves t"]
  by (auto simp: Root_def consistent_def split: option.splits)








lemma rootHashes_single: "rootHashes h [x] = [x]"
  by (subst rootHashes.simps) simp

lemma proofHashes_single: "proofHashes h [x] i = []"
  by (subst proofHashes.simps) simp




section \<open>The claims\<close>



text \<open>
  C3 (proof length). For a tree with \<open>n \<ge> 1\<close> leaves and an index in range,
  \<^verbatim>\<open>GenerateProof\<close> returns a proof of exactly \<open>\<lceil>log\<^sub>2 n\<rceil>\<close> hashes; for one leaf it is the
  empty proof.
\<close>

theorem C3_proof_length:
  assumes "0 \<le> index" and "index < int (length (leaves t))"
  shows "\<exists>p. fst (GenerateProof t index) = Inr p
           \<and> length p = nat \<lceil>log 2 (real (length (leaves t)))\<rceil>
           \<and> (length (leaves t) = 1 \<longrightarrow> p = [])"
proof -
  let ?p = "proofHashes (hashFn t) (map (hashFn t) (leaves t)) (nat index)"
  have p: "fst (GenerateProof t index) = Inr ?p"
    using assms by (simp add: GenerateProof_eq)
  have pos: "length (leaves t) \<noteq> 0" using assms by auto
  have len: "length ?p = ceillog2 (length (leaves t))"
    by (simp add: length_proofHashes)
  then have "length ?p = nat \<lceil>log 2 (real (length (leaves t)))\<rceil>"
    using pos by (simp add: ceillog2_def)
  moreover have "length (leaves t) = 1 \<longrightarrow> ?p = []"
    using len by auto
  ultimately show ?thesis using p by blast
qed

text \<open>C3 at five leaves: the proof for index 2 has three hashes.\<close>

theorem C3_proof_length_witness:
  "\<exists>p. fst (GenerateProof \<lparr>hashFn = id, leaves = [[1], [2], [3], [4], [5]], root = None\<rparr> 2) = Inr p
     \<and> length p = 3"
proof -
  have "ceillog2 5 = 3" by (rule ceillog2_eqI) simp_all
  then have "nat \<lceil>log 2 (real (5::nat))\<rceil> = 3" by (simp add: ceillog2_def)
  then show ?thesis
    using C3_proof_length [of 2 "\<lparr>hashFn = id, leaves = [[1], [2], [3], [4], [5]], root = None\<rparr>"]
    by simp
qed

text \<open>
  C4 (index out of range). \<^verbatim>\<open>GenerateProof(index)\<close> returns the error \<open>IndexOutOfBounds\<close>
  exactly when \<open>index < 0\<close> or \<open>index \<ge>\<close> the number of leaves, hence always on an empty
  tree; it leaves the tree as it was; and for every index in range it returns a proof
  (no error, no panic).
\<close>

theorem C4_index_out_of_range:
  "(fst (GenerateProof t index) = Inl IndexOutOfBounds
      \<longleftrightarrow> index < 0 \<or> int (length (leaves t)) \<le> index)
   \<and> (leaves t = [] \<longrightarrow> fst (GenerateProof t index) = Inl IndexOutOfBounds)
   \<and> snd (GenerateProof t index) = t
   \<and> (0 \<le> index \<and> index < int (length (leaves t))
        \<longrightarrow> (\<exists>p. fst (GenerateProof t index) = Inr p))"
  by (auto simp: GenerateProof_eq)

text \<open>C4 on the new tree, and on a tree of two leaves at the indices 2, -1 and 1.\<close>

theorem C4_index_out_of_range_witness:
  "fst (GenerateProof (NewDefaultMerkleTree id) 0) = Inl IndexOutOfBounds
   \<and> snd (GenerateProof (NewDefaultMerkleTree id) 0) = NewDefaultMerkleTree id
   \<and> fst (GenerateProof \<lparr>hashFn = id, leaves = [[1], [2]], root = None\<rparr> 2) = Inl IndexOutOfBounds
   \<and> fst (GenerateProof \<lparr>hashFn = id, leaves = [[1], [2]], root = None\<rparr> (- 1)) = Inl IndexOutOfBounds
   \<and> (\<exists>p. fst (GenerateProof \<lparr>hashFn = id, leaves = [[1], [2]], root = None\<rparr> 1) = Inr p)"
  using C4_index_out_of_range [of "NewDefaultMerkleTree id" 0]
    C4_index_out_of_range [of "\<lparr>hashFn = id, leaves = [[1], [2]], root = None\<rparr>" 2]
    C4_index_out_of_range [of "\<lparr>hashFn = id, leaves = [[1], [2]], root = None\<rparr>" "- 1"]
    C4_index_out_of_range [of "\<lparr>hashFn = id, leaves = [[1], [2]], root = None\<rparr>" 1]
  by (simp add: NewDefaultMerkleTree_def)




text \<open>
  C6 (single leaf). For every tree reached from a new tree by a sequence of calls and
  holding exactly one leaf \<open>L\<close>: \<^verbatim>\<open>Root()\<close> is the hash of \<open>L\<close>, \<^verbatim>\<open>GenerateProof(0)\<close> is
  the empty proof, and \<^verbatim>\<open>VerifyProof(L, 0, [], Root())\<close> is true.
\<close>

theorem C6_single_leaf:
  assumes "run (NewDefaultMerkleTree h) ops = Inr t" and "leaves t = [L]"
  shows "fst (Root t) = Some (h L)
       \<and> fst (GenerateProof t 0) = Inr []
       \<and> fst (VerifyProof t L 0 [] (h L))"
proof -
  from run_New [of h ops] assms(1) have t: "consistent t" "hashFn t = h" by auto
  have "fst (Root t) = Some (h L)"
    using Root_consistent [OF t(1)] t(2) assms(2)
    by (simp add: merkleRoot_def rootHashes_single)
  moreover have "fst (GenerateProof t 0) = Inr []"
    using assms(2) by (simp add: GenerateProof_eq proofHashes_single)
  moreover have "fst (VerifyProof t L 0 [] (h L))"
    using t(2) by (simp add: VerifyProof_def)
  ultimately show ?thesis by blast
qed

text \<open>C6 at the tree reached by \<^verbatim>\<open>Root\<close>, \<^verbatim>\<open>AddLeaf(7)\<close>, \<^verbatim>\<open>GenerateProof(5)\<close>.\<close>

theorem C6_single_leaf_witness:
  "fst (Root \<lparr>hashFn = id, leaves = [[7]], root = Some (MerkleNode None None [7])\<rparr>) = Some [7]
   \<and> fst (GenerateProof \<lparr>hashFn = id, leaves = [[7]], root = Some (MerkleNode None None [7])\<rparr> 0)
       = Inr []
   \<and> fst (VerifyProof \<lparr>hashFn = id, leaves = [[7]], root = Some (MerkleNode None None [7])\<rparr>
        [7] 0 [] [7])"
proof -
  have "run (NewDefaultMerkleTree id) [OpRoot, OpAddLeaf [7], OpGenerateProof 5]
          = Inr \<lparr>hashFn = id, leaves = [[7]], root = Some (MerkleNode None None [7])\<rparr>"
    by (simp add: NewDefaultMerkleTree_def Root_def AddLeaf_def buildTree_def leafNodes_def
        buildLoop.simps GenerateProof_def)
  from C6_single_leaf [OF this, of "[7]"] show ?thesis by simp
qed







text \<open>
  C10 (no check of the index). For every leaf, every index (negative, or beyond the number
  of leaves) and every expected root, \<^verbatim>\<open>VerifyProof\<close> with the empty proof is true exactly
  when the hash of the leaf is the expected root: the index plays no part.
\<close>

theorem C10_empty_proof_ignores_index:
  "fst (VerifyProof t leaf index [] expectedRoot) \<longleftrightarrow> hashFn t leaf = expectedRoot"
  by (simp add: VerifyProof_def)

end
